theory Spec2Isabelle
  imports Complex_Main
begin

section \<open>Volume assembly of the DICOM viewer (volumeRenderer.ts)\<close>

text \<open>
  The development embeds the volume assembly of \<^verbatim>\<open>createVolumeViewport\<close> and its helper
  \<^verbatim>\<open>sortImages\<close>: loading the images, ordering them, allocating the scalar buffer of the
  first image's typed-array kind, copying every image into its z-slot and building the
  options handed to \<^verbatim>\<open>volumeLoader.createLocalVolume\<close>. The rendering engine, the tool
  group and the viewport calls around it belong to the Cornerstone library and are left out.

  JavaScript numbers are modelled as reals (no rounding, no NaN) except inside typed arrays,
  where a sample may also be NaN or an infinity; \<^verbatim>\<open>rows\<close> and \<^verbatim>\<open>columns\<close> are natural
  numbers, as the DICOM attributes are.
\<close>

subsection \<open>Typed arrays\<close>

type_synonym point3 = "real \<times> real \<times> real"

datatype error = TypeError | RangeError | DecodeFailure

text \<open>The five constructors of \<^verbatim>\<open>PixelDataTypedArray\<close> (types.ts).\<close>

datatype pixel_kind = Int16Array | Uint16Array | Float32Array | Int8Array | Uint8Array

text \<open>A value read from a typed array element.\<close>

datatype sample = Finite real | NaN | PosInfinity | NegInfinity

record typed_array =
  kind :: pixel_kind
  elems :: "sample list"

text \<open>\<^verbatim>\<open>new PixelDataConstructor(n)\<close>: \<open>n\<close> elements, all zero.\<close>

definition new_typed_array :: "pixel_kind \<Rightarrow> nat \<Rightarrow> typed_array" where
  "new_typed_array k n = \<lparr>kind = k, elems = replicate n (Finite 0)\<rparr>"

text \<open>\<^verbatim>\<open>BYTES_PER_ELEMENT\<close> of a kind.\<close>

fun bytes_per_element :: "pixel_kind \<Rightarrow> nat" where
  "bytes_per_element Int16Array = 2"
| "bytes_per_element Uint16Array = 2"
| "bytes_per_element Float32Array = 4"
| "bytes_per_element Int8Array = 1"
| "bytes_per_element Uint8Array = 1"

text \<open>
  ECMAScript's ToInt8, ToUint8, ToInt16 and ToUint16: NaN and the infinities become 0, a
  finite number is truncated towards zero and reduced modulo \<open>2 ^ bits\<close>, into the signed
  range for a signed kind.
\<close>

definition js_truncate :: "real \<Rightarrow> int" where
  "js_truncate r = (if 0 \<le> r then \<lfloor>r\<rfloor> else \<lceil>r\<rceil>)"

definition to_int_n :: "nat \<Rightarrow> bool \<Rightarrow> sample \<Rightarrow> sample" where
  "to_int_n bits is_signed s =
     (case s of
        Finite r \<Rightarrow>
          (let m = js_truncate r mod 2 ^ bits
           in Finite (of_int (if is_signed \<and> 2 ^ (bits - 1) \<le> m then m - 2 ^ bits else m)))
      | _ \<Rightarrow> Finite 0)"

text \<open>
  The value stored in an element of kind \<open>dst\<close> when \<^verbatim>\<open>set\<close> reads it from an array of kind
  \<open>src\<close>. Equal kinds copy the element unchanged. Every 8-bit and 16-bit integer is a
  binary32 value, so storing one into a \<^verbatim>\<open>Float32Array\<close> keeps it.
\<close>

fun convert_sample :: "pixel_kind \<Rightarrow> pixel_kind \<Rightarrow> sample \<Rightarrow> sample" where
  "convert_sample dst src s =
     (if dst = src then s
      else case dst of
        Int16Array \<Rightarrow> to_int_n 16 True s
      | Uint16Array \<Rightarrow> to_int_n 16 False s
      | Float32Array \<Rightarrow> s
      | Int8Array \<Rightarrow> to_int_n 8 True s
      | Uint8Array \<Rightarrow> to_int_n 8 False s)"

text \<open>
  \<^verbatim>\<open>target.set(source, offset)\<close> of \<^verbatim>\<open>%TypedArray%.prototype.set\<close>: a RangeError when
  the source does not fit behind the offset, otherwise the elements of the source, each
  converted to the target's kind, replace the target's elements from the offset on.
\<close>

definition typed_array_set :: "typed_array \<Rightarrow> typed_array \<Rightarrow> nat \<Rightarrow> error + typed_array" where
  "typed_array_set target source offset =
     (if length (elems source) + offset > length (elems target) then Inl RangeError
      else Inr (target\<lparr>elems :=
             take offset (elems target)
             @ map (convert_sample (kind target) (kind source)) (elems source)
             @ drop (offset + length (elems source)) (elems target)\<rparr>))"

text \<open>
  The bytes of an integer typed array, little-endian two's complement, each byte a number
  below 256. The binary32 encoding of a \<^verbatim>\<open>Float32Array\<close> is not modelled.
\<close>

definition int_bytes :: "nat \<Rightarrow> int \<Rightarrow> nat list" where
  "int_bytes n v = map (\<lambda>k. nat ((v div 256 ^ k) mod 256)) [0..<n]"

definition sample_bytes :: "nat \<Rightarrow> sample \<Rightarrow> nat list" where
  "sample_bytes n s = (case s of Finite r \<Rightarrow> int_bytes n (js_truncate r) | _ \<Rightarrow> int_bytes n 0)"

definition raw_bytes :: "typed_array \<Rightarrow> nat list option" where
  "raw_bytes a =
     (if kind a = Float32Array then None
      else Some (concat (map (sample_bytes (bytes_per_element (kind a))) (elems a))))"

subsection \<open>Images and the world around the assembly\<close>

text \<open>
  \<^verbatim>\<open>DicomImage\<close> of types.ts. \<^verbatim>\<open>getPixelData\<close> is the array the method returns, the same
  at every call.
\<close>

record DicomImage =
  rows :: nat
  columns :: nat
  columnPixelSpacing :: "real option"
  rowPixelSpacing :: "real option"
  sliceThickness :: "real option"
  origin :: "point3 option"
  direction :: "real list option"
  frameOfReferenceUID :: "string option"
  rescaleSlope :: "real option"
  rescaleIntercept :: "real option"
  modality :: "string option"
  photometricInterpretation :: "string option"
  bitsAllocated :: "real option"
  bitsStored :: "real option"
  highBit :: "real option"
  pixelRepresentation :: "real option"
  windowCenter :: "real option"
  windowWidth :: "real option"
  getPixelData :: typed_array

text \<open>
  The geometric tags the library's metadata lookup returns for an image id: the spec's
  \<^verbatim>\<open>positionPatient\<close> and \<^verbatim>\<open>orientationPatient\<close> (row and column direction), each optional.
\<close>

record slice_geometry =
  positionPatient :: "point3 option"
  orientationPatient :: "(point3 \<times> point3) option"

text \<open>
  What the assembly reads from outside: the image loader (\<open>None\<close> is a rejected promise),
  the metadata lookup, the rounding of a number to binary32 done by
  \<^verbatim>\<open>new Float32Array(numbers)\<close>, and the two readings of \<^verbatim>\<open>Date.now()\<close>.
\<close>

record world =
  loadAndCacheImage :: "string \<Rightarrow> DicomImage option"
  metaData :: "string \<Rightarrow> slice_geometry"
  fround :: "real \<Rightarrow> real"
  now_volumeId :: nat
  now_frameOfReference :: nat

subsection \<open>JavaScript operators\<close>

text \<open>\<^verbatim>\<open>x || d\<close> on an optional number: \<open>d\<close> when \<open>x\<close> is undefined or 0.\<close>

definition num_or :: "real option \<Rightarrow> real \<Rightarrow> real" where
  "num_or x d = (case x of None \<Rightarrow> d | Some v \<Rightarrow> if v = 0 then d else v)"

text \<open>\<^verbatim>\<open>x || d\<close> on an optional string: \<open>d\<close> when \<open>x\<close> is undefined or empty.\<close>

definition str_or :: "string option \<Rightarrow> string \<Rightarrow> string" where
  "str_or x d = (case x of None \<Rightarrow> d | Some v \<Rightarrow> if v = [] then d else v)"

text \<open>\<^verbatim>\<open>x || d\<close> on an optional array: an array is never falsy.\<close>

definition arr_or :: "'a option \<Rightarrow> 'a \<Rightarrow> 'a" where
  "arr_or x d = (case x of None \<Rightarrow> d | Some v \<Rightarrow> v)"

text \<open>The decimal digits of a natural number, as a template literal prints them.\<close>

fun string_of_nat :: "nat \<Rightarrow> string" where
  "string_of_nat n =
     (if n < 10 then [''0123456789'' ! n]
      else string_of_nat (n div 10) @ [''0123456789'' ! (n mod 10)])"

declare string_of_nat.simps [simp del]

subsection \<open>The spatial sorter\<close>

definition cross3 :: "point3 \<Rightarrow> point3 \<Rightarrow> point3" where
  "cross3 a b =
     (case a of (a1, a2, a3) \<Rightarrow> case b of (b1, b2, b3) \<Rightarrow>
        (a2 * b3 - a3 * b2, a3 * b1 - a1 * b3, a1 * b2 - a2 * b1))"

definition dot3 :: "point3 \<Rightarrow> point3 \<Rightarrow> real" where
  "dot3 a b = (case a of (a1, a2, a3) \<Rightarrow> case b of (b1, b2, b3) \<Rightarrow> a1 * b1 + a2 * b2 + a3 * b3)"

record sort_ids_result =
  sortedImageIds :: "string list"
  sortedZSpacing :: real
  sortedOrigin :: point3

text \<open>
  Modelled from the spec: \<^verbatim>\<open>csUtilities.sortImageIdsAndGetSpacing\<close> is a function of the
  Cornerstone library and its code is not among the sources. It follows section 4.1 of the
  specification. The scan-axis normal is the cross product of the first slice's orientation
  vectors; the depth of a slice is the dot product of its position with the normal; the
  slices are sorted ascending by depth with a stable sort; the origin is the position of
  the first sorted slice; the spacing is (depth of last - depth of first) / (N - 1).
  \<open>None\<close> stands for the exception that sends \<^verbatim>\<open>sortImages\<close> to its fallback: fewer than two
  slices, the first slice without orientation, or a slice without position.
\<close>

definition sortImageIdsAndGetSpacing ::
  "(string \<Rightarrow> slice_geometry) \<Rightarrow> string list \<Rightarrow> sort_ids_result option" where
  "sortImageIdsAndGetSpacing md imageIds =
     (if length imageIds < 2 then None
      else case orientationPatient (md (hd imageIds)) of
        None \<Rightarrow> None
      | Some (rowCosines, columnCosines) \<Rightarrow>
          (case those (map (\<lambda>id. map_option (Pair id) (positionPatient (md id))) imageIds) of
             None \<Rightarrow> None
           | Some placed \<Rightarrow>
               (let scanAxisNormal = cross3 rowCosines columnCosines;
                    depth = (\<lambda>(id, p). dot3 p scanAxisNormal);
                    ordered = sort_key depth placed
                in Some \<lparr>sortedImageIds = map fst ordered,
                         sortedZSpacing =
                           (depth (last ordered) - depth (hd ordered)) / real (length ordered - 1),
                         sortedOrigin = snd (hd ordered)\<rparr>)))"

record sort_result =
  sortedImages :: "DicomImage option list"
  zSpacing :: real
  volumeOrigin :: point3

text \<open>
  \<^verbatim>\<open>sortImages\<close>. The \<^verbatim>\<open>Map\<close> built from the ids keeps the last image set for an id; a
  lookup that finds nothing yields \<^verbatim>\<open>undefined\<close>, here \<open>None\<close>. In the \<^verbatim>\<open>catch\<close> branch
  \<^verbatim>\<open>images[0]\<close> of an empty array is \<^verbatim>\<open>undefined\<close> and reading its \<^verbatim>\<open>sliceThickness\<close>
  throws a TypeError.
\<close>

definition sortImages ::
  "(string \<Rightarrow> slice_geometry) \<Rightarrow> string list \<Rightarrow> DicomImage list \<Rightarrow> error + sort_result" where
  "sortImages md imageIds images =
     (case sortImageIdsAndGetSpacing md imageIds of
        Some sortResult \<Rightarrow>
          (let imageMap = map_of (rev (zip imageIds images))
           in Inr \<lparr>sortedImages = map imageMap (sortedImageIds sortResult),
                   zSpacing = sortedZSpacing sortResult,
                   volumeOrigin = sortedOrigin sortResult\<rparr>)
      | None \<Rightarrow>
          (case images of
             [] \<Rightarrow> Inl TypeError
           | image0 # _ \<Rightarrow>
               Inr \<lparr>sortedImages = map Some images,
                    zSpacing = num_or (sliceThickness image0) 1.0,
                    volumeOrigin = arr_or (origin image0) (0, 0, 0)\<rparr>))"

subsection \<open>The volume assembler\<close>

record volume_metadata =
  FrameOfReferenceUID :: string
  Modality :: string
  Columns :: nat
  Rows :: nat
  SamplesPerPixel :: nat
  PixelSpacing :: "real \<times> real"
  ImageOrientationPatient :: "real list"
  BitsAllocated :: real
  BitsStored :: real
  HighBit :: real
  PixelRepresentation :: real
  PhotometricInterpretation :: string
  voiLut :: "real list"
  VOILUTFunction :: string

text \<open>The volume id and the options passed to \<^verbatim>\<open>volumeLoader.createLocalVolume\<close>.\<close>

record volume =
  volumeId :: string
  dimensions :: "nat \<times> nat \<times> nat"
  spacing :: point3
  scalarData :: typed_array
  volumeDirection :: "real list"
  volumeOriginPoint :: point3
  metadata :: volume_metadata

text \<open>
  The \<^verbatim>\<open>forEach\<close> loop over the sorted images: image \<open>i\<close> is written at offset
  \<open>i * sliceSize\<close>. An \<^verbatim>\<open>undefined\<close> entry has no \<^verbatim>\<open>getPixelData\<close> (TypeError); an
  exception ends the loop.
\<close>

fun forEach_set :: "DicomImage option list \<Rightarrow> nat \<Rightarrow> nat \<Rightarrow> typed_array \<Rightarrow> error + typed_array" where
  "forEach_set [] i sliceSize buf = Inr buf"
| "forEach_set (None # imgs) i sliceSize buf = Inl TypeError"
| "forEach_set (Some img # imgs) i sliceSize buf =
     (case typed_array_set buf (getPixelData img) (i * sliceSize) of
        Inl e \<Rightarrow> Inl e
      | Inr buf' \<Rightarrow> forEach_set imgs (Suc i) sliceSize buf')"

definition build_metadata :: "world \<Rightarrow> DicomImage \<Rightarrow> volume_metadata" where
  "build_metadata w image0 =
     \<lparr>FrameOfReferenceUID =
        str_or (frameOfReferenceUID image0) (''FOR-'' @ string_of_nat (now_frameOfReference w)),
      Modality = str_or (modality image0) ''CT'',
      Columns = columns image0,
      Rows = rows image0,
      SamplesPerPixel = 1,
      PixelSpacing = (num_or (columnPixelSpacing image0) 1, num_or (rowPixelSpacing image0) 1),
      ImageOrientationPatient =
        arr_or (map_option (take 6) (direction image0)) [1, 0, 0, 0, 1, 0],
      BitsAllocated = num_or (bitsAllocated image0) 16,
      BitsStored = num_or (bitsStored image0) 12,
      HighBit = num_or (highBit image0) 11,
      PixelRepresentation = num_or (pixelRepresentation image0) 0,
      PhotometricInterpretation = str_or (photometricInterpretation image0) ''MONOCHROME2'',
      voiLut = [],
      VOILUTFunction = ''LINEAR''\<rparr>"

text \<open>
  \<^verbatim>\<open>createVolumeViewport\<close>, from \<^verbatim>\<open>Promise.all\<close> over the loads to the call of
  \<^verbatim>\<open>createLocalVolume\<close>. A rejected load rejects the whole call. Destructuring
  \<^verbatim>\<open>sortedImages[0]\<close> throws a TypeError when it is \<^verbatim>\<open>undefined\<close>.
\<close>

definition createVolumeViewport :: "world \<Rightarrow> string list \<Rightarrow> error + volume" where
  "createVolumeViewport w imageIds =
     (case those (map (loadAndCacheImage w) imageIds) of
        None \<Rightarrow> Inl DecodeFailure
      | Some images \<Rightarrow>
          (case sortImages (metaData w) imageIds images of
             Inl e \<Rightarrow> Inl e
           | Inr sr \<Rightarrow>
               (case sortedImages sr of
                  [] \<Rightarrow> Inl TypeError
                | None # _ \<Rightarrow> Inl TypeError
                | Some image0 # _ \<Rightarrow>
                    (let sliceSize = rows image0 * columns image0;
                         fresh = new_typed_array (kind (getPixelData image0))
                                   (sliceSize * length (sortedImages sr))
                     in case forEach_set (sortedImages sr) 0 sliceSize fresh of
                          Inl e \<Rightarrow> Inl e
                        | Inr filled \<Rightarrow>
                            Inr \<lparr>volumeId = ''vol-'' @ string_of_nat (now_volumeId w),
                                 dimensions =
                                   (columns image0, rows image0, length (sortedImages sr)),
                                 spacing =
                                   (num_or (columnPixelSpacing image0) 1,
                                    num_or (rowPixelSpacing image0) 1,
                                    zSpacing sr),
                                 scalarData = filled,
                                 volumeDirection =
                                   map (fround w)
                                     (arr_or (direction image0) [1, 0, 0, 0, 1, 0, 0, 0, 1]),
                                 volumeOriginPoint = volumeOrigin sr,
                                 metadata = build_metadata w image0\<rparr>))))"

text \<open>
  The voxel \<open>(x, y, z)\<close> of a volume, at offset \<open>z * (columns * rows) + y * columns + x\<close> of
  its scalar buffer.
\<close>

definition voxel :: "volume \<Rightarrow> nat \<Rightarrow> nat \<Rightarrow> nat \<Rightarrow> sample" where
  "voxel v x y z =
     (case dimensions v of (cols, rws, n) \<Rightarrow> elems (scalarData v) ! (z * (cols * rws) + y * cols + x))"


subsection \<open>Example inputs\<close>

text \<open>
  An image with nothing but its grid and its pixel data, the absence of geometric tags, and
  a world given by tables: images by id, geometric tags by id, one clock reading.
\<close>

definition plain_image :: "nat \<Rightarrow> nat \<Rightarrow> pixel_kind \<Rightarrow> real list \<Rightarrow> DicomImage" where
  "plain_image r c k xs =
     \<lparr>rows = r, columns = c, columnPixelSpacing = None, rowPixelSpacing = None,
      sliceThickness = None, origin = None, direction = None, frameOfReferenceUID = None,
      rescaleSlope = None, rescaleIntercept = None, modality = None,
      photometricInterpretation = None, bitsAllocated = None, bitsStored = None,
      highBit = None, pixelRepresentation = None, windowCenter = None, windowWidth = None,
      getPixelData = \<lparr>kind = k, elems = map Finite xs\<rparr>\<rparr>"

definition no_tags :: slice_geometry where
  "no_tags = \<lparr>positionPatient = None, orientationPatient = None\<rparr>"

definition table_world ::
  "(string \<times> DicomImage) list \<Rightarrow> (string \<times> slice_geometry) list \<Rightarrow> nat \<Rightarrow> world" where
  "table_world imgs geo t =
     \<lparr>loadAndCacheImage = map_of imgs,
      metaData = (\<lambda>id. case map_of geo id of None \<Rightarrow> no_tags | Some g \<Rightarrow> g),
      fround = (\<lambda>x. x), now_volumeId = t, now_frameOfReference = t\<rparr>"


text \<open>Two slices without geometric tags, the second with fewer rows than the first.\<close>

definition padded_world :: world where
  "padded_world =
     table_world [(''a'', plain_image 2 1 Int16Array [7, 8]), (''b'', plain_image 1 1 Int16Array [5])] [] 0"


text \<open>Geometric tags of a slice at a position, with the identity orientation axes.\<close>

definition geometry :: "point3 \<Rightarrow> slice_geometry" where
  "geometry p = \<lparr>positionPatient = Some p, orientationPatient = Some ((1, 0, 0), (0, 1, 0))\<rparr>"

text \<open>Three 1x1 slices at depths 30, 10 and 20.\<close>

definition three_slice_world :: world where
  "three_slice_world =
     table_world
       [(''a'', plain_image 1 1 Int16Array [300]), (''b'', plain_image 1 1 Int16Array [100]),
        (''c'', plain_image 1 1 Int16Array [200])]
       [(''a'', geometry (1, 2, 30)), (''b'', geometry (3, 4, 10)), (''c'', geometry (5, 6, 20))] 0"



text \<open>
  Three slices without geometric tags whose second sample array is longer than the
  first slice's grid and whose third is shorter.
\<close>

definition overflow_world :: world where
  "overflow_world =
     table_world
       [(''a'', plain_image 1 2 Int16Array [5, 6]), (''b'', plain_image 2 2 Int16Array [7, 8, 9, 10]),
        (''c'', plain_image 1 1 Int16Array [4])] [] 0"

text \<open>Two slices without geometric tags, the second with a single sample.\<close>

definition short_world :: world where
  "short_world =
     table_world
       [(''a'', plain_image 1 2 Int16Array [5, 6]), (''b'', plain_image 1 1 Int16Array [4])] [] 0"

text \<open>Two 2x2 slices of one kind, given in descending depth.\<close>

definition uniform_world :: world where
  "uniform_world =
     table_world
       [(''a'', plain_image 2 2 Int16Array [1, 2, 3, 4]), (''b'', plain_image 2 2 Int16Array [5, 6, 7, 8])]
       [(''a'', geometry (0, 0, 9)), (''b'', geometry (0, 0, 3))] 0"

text \<open>Two slices without geometric tags, the first of 16-bit, the second of 8-bit samples.\<close>

definition mixed_world :: world where
  "mixed_world =
     table_world
       [(''a'', plain_image 1 2 Int16Array [258, 3]), (''b'', plain_image 1 2 Uint8Array [1, 2])] [] 0"

text \<open>Two 4x4 slices of 16-bit samples without geometric tags.\<close>

definition four_by_four_world :: world where
  "four_by_four_world =
     table_world
       [(''a'', plain_image 4 4 Int16Array (replicate 16 7)),
        (''b'', plain_image 4 4 Int16Array (replicate 16 9))] [] 0"


section \<open>Properties of the embedding\<close>

subsection \<open>Typed arrays and the copy loop\<close>

lemma those_eq_Some: "those xs = Some ys \<longleftrightarrow> xs = map Some ys"
  by (induction xs arbitrary: ys) (auto split: option.splits)

lemma nth_splice:
  "off + length ys \<le> length xs \<Longrightarrow> p < length xs \<Longrightarrow>
   (take off xs @ ys @ drop (off + length ys) xs) ! p =
     (if p < off then xs ! p else if p < off + length ys then ys ! (p - off) else xs ! p)"
  by (auto simp: nth_append min_def)

lemma typed_array_set_Inr:
  "typed_array_set t s off = Inr t' \<Longrightarrow> kind t' = kind t \<and> length (elems t') = length (elems t)"
  unfolding typed_array_set_def by (auto split: if_splits)

lemma typed_array_set_error:
  "typed_array_set t s off = Inl e \<Longrightarrow> e = RangeError \<and> length (elems t) < off + length (elems s)"
  unfolding typed_array_set_def by (auto split: if_splits)

lemma typed_array_set_nth:
  assumes "typed_array_set t s off = Inr t'" and "p < length (elems t)"
  shows "elems t' ! p =
     (if off \<le> p \<and> p < off + length (elems s)
      then convert_sample (kind t) (kind s) (elems s ! (p - off)) else elems t ! p)"
proof -
  from assms(1) have fit: "off + length (elems s) \<le> length (elems t)"
    and eq: "elems t' = take off (elems t) @ map (convert_sample (kind t) (kind s)) (elems s)
              @ drop (off + length (elems s)) (elems t)"
    unfolding typed_array_set_def by (auto split: if_splits)
  show ?thesis
    using nth_splice [of off "map (convert_sample (kind t) (kind s)) (elems s)" "elems t" p] fit assms(2)
    by (auto simp: eq)
qed

lemma forEach_set_kind_length:
  "forEach_set imgs i S b = Inr b' \<Longrightarrow> kind b' = kind b \<and> length (elems b') = length (elems b)"
proof (induction imgs i S b rule: forEach_set.induct)
  case (3 img imgs i sliceSize buf)
  then show ?case by (auto split: sum.splits dest: typed_array_set_Inr)
qed auto

lemma forEach_set_untouched:
  assumes "forEach_set (map Some slices) i S b = Inr b'"
    and "p < length (elems b)"
    and "\<forall>j<length slices. p < (i + j) * S \<or> (i + j) * S + length (elems (getPixelData (slices ! j))) \<le> p"
  shows "elems b' ! p = elems b ! p"
  using assms
proof (induction slices arbitrary: i b)
  case Nil
  then show ?case by simp
next
  case (Cons a slices)
  from Cons.prems(1) obtain b1 where
    s: "typed_array_set b (getPixelData a) (i * S) = Inr b1"
    and r: "forEach_set (map Some slices) (Suc i) S b1 = Inr b'"
    by (auto split: sum.splits)
  from Cons.prems(3) have h0: "p < i * S \<or> i * S + length (elems (getPixelData a)) \<le> p"
    by fastforce
  have b1p: "elems b1 ! p = elems b ! p"
    using typed_array_set_nth [OF s Cons.prems(2)] h0 by auto
  have len: "length (elems b1) = length (elems b)"
    using typed_array_set_Inr [OF s] by simp
  have "\<forall>j<length slices. p < (Suc i + j) * S \<or> (Suc i + j) * S + length (elems (getPixelData (slices ! j))) \<le> p"
  proof (intro allI impI)
    fix j assume "j < length slices"
    then have "Suc j < length (a # slices)" by simp
    from Cons.prems(3)[rule_format, OF this] show "p < (Suc i + j) * S \<or> (Suc i + j) * S + length (elems (getPixelData (slices ! j))) \<le> p"
      by simp
  qed
  from Cons.IH [OF r _ this] Cons.prems(2) len b1p show ?case by simp
qed

lemma forEach_set_written:
  assumes "forEach_set (map Some slices) i S b = Inr b'"
    and "j < length slices"
    and "q < length (elems (getPixelData (slices ! j)))"
    and "q < S"
  shows "elems b' ! ((i + j) * S + q) =
           convert_sample (kind b) (kind (getPixelData (slices ! j))) (elems (getPixelData (slices ! j)) ! q)"
  using assms
proof (induction slices arbitrary: i b j)
  case Nil
  then show ?case by simp
next
  case (Cons a slices)
  from Cons.prems(1) obtain b1 where
    s: "typed_array_set b (getPixelData a) (i * S) = Inr b1"
    and r: "forEach_set (map Some slices) (Suc i) S b1 = Inr b'"
    by (auto split: sum.splits)
  have kl: "kind b1 = kind b" "length (elems b1) = length (elems b)"
    using typed_array_set_Inr [OF s] by simp_all
  have fit: "i * S + length (elems (getPixelData a)) \<le> length (elems b)"
    using s unfolding typed_array_set_def by (auto split: if_splits)
  show ?case
  proof (cases j)
    case 0
    with Cons.prems have q: "q < length (elems (getPixelData a))" by simp
    have p: "i * S + q < length (elems b)" using q fit by linarith
    have w: "elems b1 ! (i * S + q) = convert_sample (kind b) (kind (getPixelData a)) (elems (getPixelData a) ! q)"
      using typed_array_set_nth [OF s p] q by simp
    have "\<forall>j<length slices. i * S + q < (Suc i + j) * S \<or> (Suc i + j) * S + length (elems (getPixelData (slices ! j))) \<le> i * S + q"
      using \<open>q < S\<close> by (simp add: algebra_simps)
    from forEach_set_untouched [OF r _ this] p kl w 0 show ?thesis by simp
  next
    case (Suc j')
    with Cons.prems have "j' < length slices" "q < length (elems (getPixelData (slices ! j')))"
      by simp_all
    from Cons.IH [OF r this \<open>q < S\<close>] kl Suc show ?thesis by simp
  qed
qed

lemma forEach_set_succeeds:
  "\<forall>j<length slices. (i + j) * S + length (elems (getPixelData (slices ! j))) \<le> length (elems b)
   \<Longrightarrow> \<exists>b'. forEach_set (map Some slices) i S b = Inr b'"
proof (induction slices arbitrary: i b)
  case Nil
  then show ?case by simp
next
  case (Cons a slices)
  from Cons.prems have "i * S + length (elems (getPixelData a)) \<le> length (elems b)"
    by fastforce
  then obtain b1 where s: "typed_array_set b (getPixelData a) (i * S) = Inr b1"
    unfolding typed_array_set_def by auto
  have len: "length (elems b1) = length (elems b)"
    using typed_array_set_Inr [OF s] by simp
  have "\<forall>j<length slices. (Suc i + j) * S + length (elems (getPixelData (slices ! j))) \<le> length (elems b1)"
  proof (intro allI impI)
    fix j assume "j < length slices"
    then have "Suc j < length (a # slices)" by simp
    from Cons.prems[rule_format, OF this] len
    show "(Suc i + j) * S + length (elems (getPixelData (slices ! j))) \<le> length (elems b1)"
      by simp
  qed
  from Cons.IH [OF this] s show ?case by simp
qed

lemma forEach_set_fails:
  "forEach_set (map Some slices) i S b = Inl e \<Longrightarrow>
   e = RangeError \<and> (\<exists>j<length slices. length (elems b) < (i + j) * S + length (elems (getPixelData (slices ! j))))"
proof (induction slices arbitrary: i b)
  case Nil
  then show ?case by simp
next
  case (Cons a slices)
  show ?case
  proof (cases "typed_array_set b (getPixelData a) (i * S)")
    case (Inl e')
    with Cons.prems have "e = e'" by simp
    with typed_array_set_error [OF Inl] show ?thesis by fastforce
  next
    case (Inr b1)
    with Cons.prems have r: "forEach_set (map Some slices) (Suc i) S b1 = Inl e" by simp
    have len: "length (elems b1) = length (elems b)"
      using typed_array_set_Inr [OF Inr] by simp
    from Cons.IH [OF r] obtain j where "e = RangeError" "j < length slices"
      "length (elems b1) < (Suc i + j) * S + length (elems (getPixelData (slices ! j)))" by blast
    then have "Suc j < length (a # slices) \<and> length (elems b) < (i + Suc j) * S + length (elems (getPixelData ((a # slices) ! Suc j)))"
      using len by simp
    with \<open>e = RangeError\<close> show ?thesis by blast
  qed
qed

subsection \<open>The sorter\<close>

lemma placed_ids:
  "those (map (\<lambda>id. map_option (Pair id) (g id)) ids) = Some placed \<Longrightarrow> map fst placed = ids"
  by (induction ids arbitrary: placed) (auto split: option.splits)

lemma sortImageIdsAndGetSpacing_perm:
  assumes "sortImageIdsAndGetSpacing md ids = Some r"
  shows "set (sortedImageIds r) = set ids \<and> length (sortedImageIds r) = length ids"
proof -
  from assms obtain o1 o2 placed where
    p: "those (map (\<lambda>id. map_option (Pair id) (positionPatient (md id))) ids) = Some placed"
    and r: "sortedImageIds r = map fst (sort_key (\<lambda>(id, p). dot3 p (cross3 o1 o2)) placed)"
    unfolding sortImageIdsAndGetSpacing_def
    by (cases "orientationPatient (md (hd ids))")
       (auto simp: Let_def split: if_splits option.splits)
  have "set (map fst (sort_key (\<lambda>(id, p). dot3 p (cross3 o1 o2)) placed)) = set (map fst placed)"
    and "length (map fst (sort_key (\<lambda>(id, p). dot3 p (cross3 o1 o2)) placed)) = length (map fst placed)"
    by simp_all
  with r placed_ids [OF p] show ?thesis by simp
qed

lemma imageMap_lookup:
  "map f ids = map Some images \<Longrightarrow> k \<in> set ids \<Longrightarrow> map_of (rev (zip ids images)) k = f k"
proof (induction ids arbitrary: images)
  case Nil
  then show ?case by simp
next
  case (Cons a ids)
  then obtain x images' where im: "images = x # images'" "f a = Some x" "map f ids = map Some images'"
    by (cases images) auto
  show ?case
  proof (cases "k \<in> set ids")
    case True
    then have "f k \<in> set (map Some images')" using im(3) by (metis image_eqI set_map)
    then obtain y where "f k = Some y" by auto
    with Cons.IH [OF im(3) True] show ?thesis
      by (simp add: im map_add_def)
  next
    case False
    with Cons.prems have "k = a" by simp
    have "k \<notin> fst ` set (zip ids images')"
      using False by (auto dest: set_zip_leftD)
    then have "map_of (rev (zip ids images')) k = None"
      by (simp add: map_of_eq_None_iff)
    then show ?thesis using \<open>k = a\<close> by (simp add: im map_add_def)
  qed
qed

lemma sortImages_shape:
  assumes "those (map load ids) = Some images" and "sortImages md ids images = Inr sr"
  shows "\<exists>slices. sortedImages sr = map Some slices \<and> length slices = length ids
           \<and> set slices \<subseteq> set images"
proof (cases "sortImageIdsAndGetSpacing md ids")
  case None
  with assms(2) have "sortedImages sr = map Some images"
    unfolding sortImages_def by (auto split: list.splits)
  moreover have "length images = length ids"
    using assms(1) by (metis those_eq_Some length_map)
  ultimately show ?thesis by blast
next
  case (Some r)
  have li: "map load ids = map Some images" using assms(1) by (simp add: those_eq_Some)
  have sub: "set (sortedImageIds r) = set ids" and len: "length (sortedImageIds r) = length ids"
    using sortImageIdsAndGetSpacing_perm [OF Some] by simp_all
  from assms(2) Some have "sortedImages sr = map (map_of (rev (zip ids images))) (sortedImageIds r)"
    unfolding sortImages_def by (auto simp: Let_def)
  also have "\<dots> = map load (sortedImageIds r)"
    using imageMap_lookup [OF li] sub by simp
  finally have eq: "sortedImages sr = map load (sortedImageIds r)" .
  have all: "\<forall>k\<in>set ids. \<exists>x\<in>set images. load k = Some x"
  proof
    fix k assume "k \<in> set ids"
    then have "load k \<in> set (map Some images)" using li by (metis image_eqI set_map)
    then show "\<exists>x\<in>set images. load k = Some x" by auto
  qed
  let ?slices = "map (\<lambda>k. the (load k)) (sortedImageIds r)"
  have "map load (sortedImageIds r) = map Some ?slices"
    using all sub by auto
  moreover have "length ?slices = length ids" using len by simp
  moreover have "set ?slices \<subseteq> set images" using all sub by fastforce
  ultimately show ?thesis using eq by metis
qed

lemma sortImages_succeeds: "images \<noteq> [] \<Longrightarrow> \<exists>sr. sortImages md ids images = Inr sr"
  unfolding sortImages_def by (auto simp: Let_def split: option.splits list.splits)

lemma sortImages_error: "sortImages md ids images = Inl e \<Longrightarrow> e = TypeError \<and> images = []"
  unfolding sortImages_def by (auto simp: Let_def split: option.splits list.splits)

lemma createVolumeViewport_unfold:
  assumes "those (map (loadAndCacheImage w) ids) = Some images"
    and "sortImages (metaData w) ids images = Inr sr"
    and "sortedImages sr = map Some (image0 # rest)"
  shows "createVolumeViewport w ids =
    (case forEach_set (map Some (image0 # rest)) 0 (rows image0 * columns image0)
            (new_typed_array (kind (getPixelData image0))
               (rows image0 * columns image0 * Suc (length rest))) of
       Inl e \<Rightarrow> Inl e
     | Inr filled \<Rightarrow>
         Inr \<lparr>volumeId = ''vol-'' @ string_of_nat (now_volumeId w),
              dimensions = (columns image0, rows image0, Suc (length rest)),
              spacing = (num_or (columnPixelSpacing image0) 1,
                         num_or (rowPixelSpacing image0) 1, zSpacing sr),
              scalarData = filled,
              volumeDirection =
                map (fround w) (arr_or (direction image0) [1, 0, 0, 0, 1, 0, 0, 0, 1]),
              volumeOriginPoint = volumeOrigin sr,
              metadata = build_metadata w image0\<rparr>)"
  using assms unfolding createVolumeViewport_def by (simp add: Let_def cong: sum.case_cong)

lemmas assembly_defs =
  createVolumeViewport_def sortImages_def sortImageIdsAndGetSpacing_def new_typed_array_def
  typed_array_set_def build_metadata_def num_or_def str_or_def arr_or_def Let_def
  plain_image_def no_tags_def table_world_def

lemma sum_Inr_projr: "\<not> isl x \<Longrightarrow> x = Inr (projr x)"
  by (cases x) simp_all


subsection \<open>The assembled volume\<close>

lemma forEach_set_fits:
  "forEach_set (map Some slices) i S b = Inr b' \<Longrightarrow>
   \<forall>j<length slices. (i + j) * S + length (elems (getPixelData (slices ! j))) \<le> length (elems b)"
proof (induction slices arbitrary: i b)
  case Nil
  then show ?case by simp
next
  case (Cons a slices)
  from Cons.prems obtain b1 where
    s: "typed_array_set b (getPixelData a) (i * S) = Inr b1"
    and r: "forEach_set (map Some slices) (Suc i) S b1 = Inr b'"
    by (auto split: sum.splits)
  have fit: "i * S + length (elems (getPixelData a)) \<le> length (elems b)"
    using s unfolding typed_array_set_def by (auto split: if_splits)
  have len: "length (elems b1) = length (elems b)"
    using typed_array_set_Inr [OF s] by simp
  show ?case
  proof (intro allI impI)
    fix j assume j: "j < length (a # slices)"
    show "(i + j) * S + length (elems (getPixelData ((a # slices) ! j))) \<le> length (elems b)"
    proof (cases j)
      case 0
      with fit show ?thesis by simp
    next
      case (Suc j')
      with j have "j' < length slices" by simp
      with Cons.IH [OF r] len Suc show ?thesis by simp
    qed
  qed
qed

lemma createVolumeViewport_filled:
  assumes "those (map (loadAndCacheImage w) ids) = Some images"
    and "sortImages (metaData w) ids images = Inr sr"
    and "sortedImages sr = map Some (image0 # rest)"
    and "createVolumeViewport w ids = Inr v"
  shows "forEach_set (map Some (image0 # rest)) 0 (rows image0 * columns image0)
            (new_typed_array (kind (getPixelData image0))
               (rows image0 * columns image0 * Suc (length rest))) = Inr (scalarData v)"
    and "dimensions v = (columns image0, rows image0, Suc (length rest))"
  using assms(4) unfolding createVolumeViewport_unfold [OF assms(1-3)]
  by (auto split: sum.splits)

lemma createVolumeViewport_result:
  assumes "those (map (loadAndCacheImage w) ids) = Some images"
    and "sortImages (metaData w) ids images = Inr sr"
    and "sortedImages sr = map Some (image0 # rest)"
  shows "(\<exists>v. createVolumeViewport w ids = Inr v) \<longleftrightarrow>
         (\<exists>filled. forEach_set (map Some (image0 # rest)) 0 (rows image0 * columns image0)
            (new_typed_array (kind (getPixelData image0))
               (rows image0 * columns image0 * Suc (length rest))) = Inr filled)"
    and "createVolumeViewport w ids = Inl e \<longleftrightarrow>
         forEach_set (map Some (image0 # rest)) 0 (rows image0 * columns image0)
            (new_typed_array (kind (getPixelData image0))
               (rows image0 * columns image0 * Suc (length rest))) = Inl e"
  unfolding createVolumeViewport_unfold [OF assms(1-3)]
  by (auto split: sum.splits)

lemma loaded_sorted:
  assumes "those (map (loadAndCacheImage w) ids) = Some images" and "ids \<noteq> []"
  shows "\<exists>sr image0 rest. sortImages (metaData w) ids images = Inr sr \<and>
           sortedImages sr = map Some (image0 # rest) \<and> Suc (length rest) = length ids"
proof -
  have "length images = length ids" using assms(1) by (metis those_eq_Some length_map)
  with assms(2) have "images \<noteq> []" by auto
  from sortImages_succeeds [OF this] obtain sr where so: "sortImages (metaData w) ids images = Inr sr"
    by blast
  from sortImages_shape [OF assms(1) so] obtain slices where
    sl: "sortedImages sr = map Some slices" "length slices = length ids" by blast
  with assms(2) obtain image0 rest where "slices = image0 # rest" by (cases slices) auto
  with so sl show ?thesis by auto
qed

lemma slot_index_bound: "z < n \<Longrightarrow> q < S \<Longrightarrow> z * S + q < n * (S::nat)"
proof -
  assume "z < n" "q < S"
  then have "z * S + q < Suc z * S" by simp
  also have "\<dots> \<le> n * S" using \<open>z < n\<close> by (intro mult_le_mono1) simp
  finally show ?thesis .
qed

lemma slot_fits: "j < n \<Longrightarrow> l \<le> S \<Longrightarrow> j * S + l \<le> n * (S::nat)"
proof -
  assume "j < n" "l \<le> S"
  then have "j * S + l \<le> Suc j * S" by simp
  also have "\<dots> \<le> n * S" using \<open>j < n\<close> by (intro mult_le_mono1) simp
  finally show ?thesis .
qed

lemma assembled_sample:
  assumes "those (map (loadAndCacheImage w) ids) = Some images"
    and "sortImages (metaData w) ids images = Inr sr"
    and "sortedImages sr = map Some (image0 # rest)"
    and "createVolumeViewport w ids = Inr v"
    and "z < Suc (length rest)"
    and "q < length (elems (getPixelData ((image0 # rest) ! z)))"
    and "q < rows image0 * columns image0"
  shows "elems (scalarData v) ! (z * (rows image0 * columns image0) + q) =
           convert_sample (kind (getPixelData image0)) (kind (getPixelData ((image0 # rest) ! z)))
             (elems (getPixelData ((image0 # rest) ! z)) ! q)"
  using forEach_set_written [OF createVolumeViewport_filled(1) [OF assms(1-4)], of z q] assms(5-7)
  by (simp add: new_typed_array_def)

lemma assembled_kind:
  assumes "those (map (loadAndCacheImage w) ids) = Some images"
    and "sortImages (metaData w) ids images = Inr sr"
    and "sortedImages sr = map Some (image0 # rest)"
    and "createVolumeViewport w ids = Inr v"
  shows "kind (scalarData v) = kind (getPixelData image0)"
    and "length (elems (scalarData v)) = Suc (length rest) * (rows image0 * columns image0)"
  using forEach_set_kind_length [OF createVolumeViewport_filled(1) [OF assms(1-4)]]
  by (simp_all add: new_typed_array_def)

lemma assembled_zero:
  assumes "those (map (loadAndCacheImage w) ids) = Some images"
    and "sortImages (metaData w) ids images = Inr sr"
    and "sortedImages sr = map Some (image0 # rest)"
    and "createVolumeViewport w ids = Inr v"
    and short: "\<forall>s\<in>set (image0 # rest). length (elems (getPixelData s)) \<le> rows image0 * columns image0"
    and z: "z < Suc (length rest)"
    and q: "length (elems (getPixelData ((image0 # rest) ! z))) \<le> q" "q < rows image0 * columns image0"
  shows "elems (scalarData v) ! (z * (rows image0 * columns image0) + q) = Finite 0"
proof -
  let ?S = "rows image0 * columns image0"
  let ?slices = "image0 # rest"
  let ?fresh = "new_typed_array (kind (getPixelData image0)) (?S * Suc (length rest))"
  let ?p = "z * ?S + q"
  have p: "?p < length (elems ?fresh)"
    using slot_index_bound [OF z q(2)] by (simp add: new_typed_array_def mult.commute)
  have "\<forall>j<length ?slices. ?p < (0 + j) * ?S \<or> (0 + j) * ?S + length (elems (getPixelData (?slices ! j))) \<le> ?p"
  proof (intro allI impI)
    fix j assume j: "j < length ?slices"
    then have lj: "length (elems (getPixelData (?slices ! j))) \<le> ?S"
      using short nth_mem [OF j] by blast
    consider "j < z" | "j = z" | "z < j" by linarith
    then show "?p < (0 + j) * ?S \<or> (0 + j) * ?S + length (elems (getPixelData (?slices ! j))) \<le> ?p"
    proof cases
      case 1
      then have "Suc j * ?S \<le> z * ?S" by (intro mult_le_mono1) simp
      with lj show ?thesis by simp
    next
      case 2
      with q(1) show ?thesis by simp
    next
      case 3
      then have "Suc z * ?S \<le> j * ?S" by (intro mult_le_mono1) simp
      with q(2) show ?thesis by simp
    qed
  qed
  from forEach_set_untouched [OF createVolumeViewport_filled(1) [OF assms(1-4)] p this] p
  show ?thesis by (simp add: new_typed_array_def)
qed

lemma assembled_succeeds:
  assumes "those (map (loadAndCacheImage w) ids) = Some images"
    and "sortImages (metaData w) ids images = Inr sr"
    and "sortedImages sr = map Some (image0 # rest)"
    and short: "\<forall>s\<in>set (image0 # rest). length (elems (getPixelData s)) \<le> rows image0 * columns image0"
  shows "\<exists>v. createVolumeViewport w ids = Inr v"
proof -
  let ?S = "rows image0 * columns image0"
  let ?slices = "image0 # rest"
  let ?fresh = "new_typed_array (kind (getPixelData image0)) (?S * Suc (length rest))"
  have len: "length (elems ?fresh) = length ?slices * ?S"
    by (simp add: new_typed_array_def)
  have "\<forall>j<length ?slices. (0 + j) * ?S + length (elems (getPixelData (?slices ! j))) \<le> length (elems ?fresh)"
  proof (intro allI impI)
    fix j assume j: "j < length ?slices"
    then have lj: "length (elems (getPixelData (?slices ! j))) \<le> ?S"
      using short nth_mem [OF j] by blast
    from slot_fits [OF j lj]
    show "(0 + j) * ?S + length (elems (getPixelData (?slices ! j))) \<le> length (elems ?fresh)"
      unfolding len by (simp only: add_0)
  qed
  from forEach_set_succeeds [OF this] createVolumeViewport_result(1) [OF assms(1-3)]
  show ?thesis by simp
qed


section \<open>The claims\<close>

text \<open>
  C1. Three slices whose positions have the z-components 30, 10 and 20, with the identity
  orientation axes: the sorter returns the ids in the order of depths 10, 20, 30, the
  spacing (30 - 10) / 2 = 10, which is (depth of last - depth of first) / (N - 1) for
  N = 3, and, as origin, the position of the slice at depth 10;
  \<^verbatim>\<open>sortImages\<close> returns the images in that order with the same spacing and origin.
  The x and y components, the ids and the images are arbitrary.
\<close>

theorem sortImages_three_slices:
  assumes "positionPatient (md a) = Some (xa, ya, 30)"
    and "positionPatient (md b) = Some (xb, yb, 10)"
    and "positionPatient (md c) = Some (xc, yc, 20)"
    and "orientationPatient (md a) = Some ((1, 0, 0), (0, 1, 0))"
    and "orientationPatient (md b) = Some ((1, 0, 0), (0, 1, 0))"
    and "orientationPatient (md c) = Some ((1, 0, 0), (0, 1, 0))"
  shows "sortImageIdsAndGetSpacing md [a, b, c]
           = Some \<lparr>sortedImageIds = [b, c, a], sortedZSpacing = (30 - 10) / 2,
                    sortedOrigin = (xb, yb, 10)\<rparr>
         \<and> sortImages md [a, b, c] [ia, ib, ic]
           = Inr \<lparr>sortedImages = [Some ib, Some ic, Some ia], zSpacing = 10,
                   volumeOrigin = (xb, yb, 10)\<rparr>"
proof -
  have ne: "a \<noteq> b" "a \<noteq> c" "b \<noteq> c" using assms(1-3) by auto
  have s: "sortImageIdsAndGetSpacing md [a, b, c]
           = Some \<lparr>sortedImageIds = [b, c, a], sortedZSpacing = (30 - 10) / 2,
                    sortedOrigin = (xb, yb, 10)\<rparr>"
    using assms by (simp add: sortImageIdsAndGetSpacing_def cross3_def dot3_def)
  show ?thesis using ne by (simp add: s sortImages_def)
qed

theorem sortImages_three_slices_witness:
  "sortImageIdsAndGetSpacing (metaData three_slice_world) [''a'', ''b'', ''c'']
     = Some \<lparr>sortedImageIds = [''b'', ''c'', ''a''], sortedZSpacing = (30 - 10) / 2,
              sortedOrigin = (3, 4, 10)\<rparr>
   \<and> sortImages (metaData three_slice_world) [''a'', ''b'', ''c'']
       [plain_image 1 1 Int16Array [300], plain_image 1 1 Int16Array [100],
        plain_image 1 1 Int16Array [200]]
     = Inr \<lparr>sortedImages = [Some (plain_image 1 1 Int16Array [100]),
                             Some (plain_image 1 1 Int16Array [200]),
                             Some (plain_image 1 1 Int16Array [300])],
            zSpacing = 10, volumeOrigin = (3, 4, 10)\<rparr>"
  by (rule sortImages_three_slices)
     (simp_all add: three_slice_world_def table_world_def geometry_def)

text \<open>
  C2. Whenever the assembly returns a volume, the images loaded and the sorter ran, the
  sorted list starts with an image, the volume's dimensions are that image's columns and
  rows and the number of input ids, and the scalar buffer has exactly
  \<open>columns * rows * sliceCount\<close> elements.
\<close>

theorem scalarData_length:
  assumes "createVolumeViewport w ids = Inr v"
  shows "\<exists>images sr image0 rest.
           those (map (loadAndCacheImage w) ids) = Some images \<and>
           sortImages (metaData w) ids images = Inr sr \<and>
           sortedImages sr = Some image0 # rest \<and>
           dimensions v = (columns image0, rows image0, length ids) \<and>
           length (elems (scalarData v)) = columns image0 * rows image0 * length ids"
proof -
  from assms obtain images where li: "those (map (loadAndCacheImage w) ids) = Some images"
    unfolding createVolumeViewport_def by (auto split: option.splits)
  from assms li obtain sr where so: "sortImages (metaData w) ids images = Inr sr"
    unfolding createVolumeViewport_def by (auto split: sum.splits)
  from sortImages_shape [OF li so] obtain slices where
    sl: "sortedImages sr = map Some slices" "length slices = length ids" by blast
  from assms li so sl obtain image0 rest where c: "slices = image0 # rest"
    unfolding createVolumeViewport_def by (cases slices) auto
  let ?S = "rows image0 * columns image0"
  from assms createVolumeViewport_unfold [OF li so sl(1) [unfolded c]]
  obtain filled where
    f: "forEach_set (map Some (image0 # rest)) 0 ?S
          (new_typed_array (kind (getPixelData image0)) (?S * Suc (length rest))) = Inr filled"
    and v: "dimensions v = (columns image0, rows image0, Suc (length rest))" "scalarData v = filled"
    by (auto split: sum.splits)
  have "length (elems filled) = ?S * Suc (length rest)"
    using forEach_set_kind_length [OF f] by (simp add: new_typed_array_def)
  moreover have "Suc (length rest) = length ids" using sl(2) c by simp
  ultimately show ?thesis using li so sl(1) c v by (simp add: mult.commute)
qed

theorem scalarData_length_witness:
  "createVolumeViewport uniform_world [''a'', ''b'']
     = Inr (projr (createVolumeViewport uniform_world [''a'', ''b''])) \<and>
   dimensions (projr (createVolumeViewport uniform_world [''a'', ''b''])) = (2, 2, 2) \<and>
   length (elems (scalarData (projr (createVolumeViewport uniform_world [''a'', ''b''])))) = 2 * 2 * 2"
proof -
  let ?a = "plain_image 2 2 Int16Array [1, 2, 3, 4]" and ?b = "plain_image 2 2 Int16Array [5, 6, 7, 8]"
  have ok: "createVolumeViewport uniform_world [''a'', ''b'']
              = Inr (projr (createVolumeViewport uniform_world [''a'', ''b'']))"
    by (rule sum_Inr_projr)
       (simp add: assembly_defs uniform_world_def geometry_def cross3_def dot3_def)
  have li: "those (map (loadAndCacheImage uniform_world) [''a'', ''b'']) = Some [?a, ?b]"
    by (simp add: uniform_world_def table_world_def)
  have so: "sortImages (metaData uniform_world) [''a'', ''b''] [?a, ?b]
              = Inr \<lparr>sortedImages = [Some ?b, Some ?a], zSpacing = 6, volumeOrigin = (0, 0, 3)\<rparr>"
    by (simp add: sortImages_def sortImageIdsAndGetSpacing_def uniform_world_def table_world_def
        geometry_def cross3_def dot3_def)
  from scalarData_length [OF ok] obtain images sr image0 rest where
    "those (map (loadAndCacheImage uniform_world) [''a'', ''b'']) = Some images"
    "sortImages (metaData uniform_world) [''a'', ''b''] images = Inr sr"
    "sortedImages sr = Some image0 # rest"
    and d: "dimensions (projr (createVolumeViewport uniform_world [''a'', ''b'']))
        = (columns image0, rows image0, length [''a'', ''b''])"
    and l: "length (elems (scalarData (projr (createVolumeViewport uniform_world [''a'', ''b'']))))
        = columns image0 * rows image0 * length [''a'', ''b'']"
    by blast
  with li so have "image0 = ?b" by simp
  with d l ok show ?thesis by (simp add: plain_image_def)
qed

text \<open>
  C3. For a non-empty slice list in which every sorted slice has the rows, the columns and
  the sample kind of the first sorted slice, each slice holding \<open>rows * columns\<close> samples
  as a SliceRecord does, the assembly returns a volume; sorted slice \<open>i\<close> is copied unchanged
  into the buffer range from \<open>i * rows * columns\<close> to \<open>(i + 1) * rows * columns\<close>, and voxel
  \<open>(x, y, z)\<close> is sample \<open>y * columns + x\<close> of sorted slice \<open>z\<close>.
\<close>

theorem slices_copied_verbatim:
  assumes "those (map (loadAndCacheImage w) ids) = Some images"
    and "sortImages (metaData w) ids images = Inr sr"
    and "sortedImages sr = map Some slices"
    and "ids \<noteq> []"
    and "\<forall>s\<in>set slices.
           rows s = rows (hd slices) \<and> columns s = columns (hd slices) \<and>
           kind (getPixelData s) = kind (getPixelData (hd slices)) \<and>
           length (elems (getPixelData s)) = rows s * columns s"
  shows "\<exists>v. createVolumeViewport w ids = Inr v \<and>
           (\<forall>i<length slices.
              take (rows (hd slices) * columns (hd slices))
                (drop (i * (rows (hd slices) * columns (hd slices))) (elems (scalarData v)))
              = elems (getPixelData (slices ! i))) \<and>
           (\<forall>x<columns (hd slices). \<forall>y<rows (hd slices). \<forall>z<length slices.
              voxel v x y z = elems (getPixelData (slices ! z)) ! (y * columns (hd slices) + x))"
proof -
  from sortImages_shape [OF assms(1,2)] assms(3) have "length slices = length ids"
    by (metis length_map)
  with assms(4) obtain image0 rest where c: "slices = image0 # rest" by (cases slices) auto
  let ?S = "rows image0 * columns image0"
  note sl = assms(3) [unfolded c]
  have uni: "\<forall>s\<in>set (image0 # rest). kind (getPixelData s) = kind (getPixelData image0) \<and>
               length (elems (getPixelData s)) = ?S"
    using assms(5) unfolding c by simp
  then have short: "\<forall>s\<in>set (image0 # rest). length (elems (getPixelData s)) \<le> ?S"
    by simp
  from assembled_succeeds [OF assms(1,2) sl short] obtain v where
    v: "createVolumeViewport w ids = Inr v" ..
  have len: "length (elems (scalarData v)) = Suc (length rest) * ?S"
    by (rule assembled_kind(2) [OF assms(1,2) sl v])
  have dims: "dimensions v = (columns image0, rows image0, Suc (length rest))"
    by (rule createVolumeViewport_filled(2) [OF assms(1,2) sl v])
  have at: "elems (scalarData v) ! (z * ?S + q) = elems (getPixelData ((image0 # rest) ! z)) ! q"
    if z: "z < length (image0 # rest)" and q: "q < ?S" for z q
  proof -
    from uni nth_mem [OF z] have k: "kind (getPixelData ((image0 # rest) ! z)) = kind (getPixelData image0)"
      and l: "length (elems (getPixelData ((image0 # rest) ! z))) = ?S" by blast+
    from assembled_sample [OF assms(1,2) sl v, of z q] z q k l show ?thesis by simp
  qed
  have slot: "take ?S (drop (i * ?S) (elems (scalarData v))) = elems (getPixelData ((image0 # rest) ! i))"
    if i: "i < length (image0 # rest)" for i
  proof (rule nth_equalityI)
    from uni nth_mem [OF i] have l: "length (elems (getPixelData ((image0 # rest) ! i))) = ?S"
      by blast
    have "Suc i * ?S \<le> Suc (length rest) * ?S" using i by (intro mult_le_mono1) simp
    then have "i * ?S + ?S \<le> length (elems (scalarData v))" unfolding len by simp
    then show "length (take ?S (drop (i * ?S) (elems (scalarData v))))
                 = length (elems (getPixelData ((image0 # rest) ! i)))"
      unfolding l by simp
    fix q assume "q < length (take ?S (drop (i * ?S) (elems (scalarData v))))"
    then have q: "q < ?S" by simp
    with at [OF i q] \<open>i * ?S + ?S \<le> length (elems (scalarData v))\<close>
    show "take ?S (drop (i * ?S) (elems (scalarData v))) ! q
            = elems (getPixelData ((image0 # rest) ! i)) ! q"
      by simp
  qed
  have vox: "voxel v x y z = elems (getPixelData ((image0 # rest) ! z)) ! (y * columns image0 + x)"
    if x: "x < columns image0" and y: "y < rows image0" and z: "z < length (image0 # rest)" for x y z
  proof -
    have "y * columns image0 + x < rows image0 * columns image0"
      by (rule slot_index_bound [OF y x])
    from at [OF z this] dims show ?thesis
      by (simp add: voxel_def mult.commute add.assoc)
  qed
  from v slot vox show ?thesis unfolding c list.sel by blast
qed

theorem slices_copied_verbatim_witness:
  "those (map (loadAndCacheImage uniform_world) [''a'', ''b''])
     = Some [plain_image 2 2 Int16Array [1, 2, 3, 4], plain_image 2 2 Int16Array [5, 6, 7, 8]] \<and>
   map_sum id sortedImages
     (sortImages (metaData uniform_world) [''a'', ''b'']
        [plain_image 2 2 Int16Array [1, 2, 3, 4], plain_image 2 2 Int16Array [5, 6, 7, 8]])
     = Inr [Some (plain_image 2 2 Int16Array [5, 6, 7, 8]),
            Some (plain_image 2 2 Int16Array [1, 2, 3, 4])] \<and>
   (\<exists>v. createVolumeViewport uniform_world [''a'', ''b''] = Inr v \<and>
      take 4 (drop (1 * 4) (elems (scalarData v))) = [Finite 1, Finite 2, Finite 3, Finite 4] \<and>
      voxel v 1 0 0 = Finite 6 \<and> voxel v 0 1 1 = Finite 3)"
proof -
  let ?a = "plain_image 2 2 Int16Array [1, 2, 3, 4]" and ?b = "plain_image 2 2 Int16Array [5, 6, 7, 8]"
  have li: "those (map (loadAndCacheImage uniform_world) [''a'', ''b'']) = Some [?a, ?b]"
    by (simp add: uniform_world_def table_world_def)
  have so: "sortImages (metaData uniform_world) [''a'', ''b''] [?a, ?b]
              = Inr \<lparr>sortedImages = map Some [?b, ?a], zSpacing = 6, volumeOrigin = (0, 0, 3)\<rparr>"
    by (simp add: sortImages_def sortImageIdsAndGetSpacing_def uniform_world_def table_world_def
        geometry_def cross3_def dot3_def)
  have uni: "\<forall>s\<in>set [?b, ?a].
           rows s = rows (hd [?b, ?a]) \<and> columns s = columns (hd [?b, ?a]) \<and>
           kind (getPixelData s) = kind (getPixelData (hd [?b, ?a])) \<and>
           length (elems (getPixelData s)) = rows s * columns s"
    by (simp add: plain_image_def)
  from slices_copied_verbatim [OF li so _ _ uni]
  obtain v where v: "createVolumeViewport uniform_world [''a'', ''b''] = Inr v"
    and s: "\<forall>i<length [?b, ?a].
              take (rows (hd [?b, ?a]) * columns (hd [?b, ?a]))
                (drop (i * (rows (hd [?b, ?a]) * columns (hd [?b, ?a]))) (elems (scalarData v)))
              = elems (getPixelData ([?b, ?a] ! i))"
    and x: "\<forall>x<columns (hd [?b, ?a]). \<forall>y<rows (hd [?b, ?a]). \<forall>z<length [?b, ?a].
              voxel v x y z = elems (getPixelData ([?b, ?a] ! z)) ! (y * columns (hd [?b, ?a]) + x)"
    by auto
  from s [rule_format, of 1]
  have "take 4 (drop (1 * 4) (elems (scalarData v))) = [Finite 1, Finite 2, Finite 3, Finite 4]"
    by (simp add: plain_image_def)
  moreover from x [rule_format, of 1 0 0] have "voxel v 1 0 0 = Finite 6"
    by (simp add: plain_image_def)
  moreover from x [rule_format, of 0 1 1] have "voxel v 0 1 1 = Finite 3"
    by (simp add: plain_image_def)
  ultimately show ?thesis using li so v by simp
qed

text \<open>
  C4. The scalar buffer of a returned volume has the typed-array kind of the first sorted
  slice's pixel data. In particular, for two sorted 4x4 slices of 16 samples each whose
  first has a 16-bit integer kind, the assembly returns a volume whose buffer has that
  kind, two bytes per element, and 32 elements.
\<close>

theorem buffer_kind_of_first_slice:
  "(\<forall>v. createVolumeViewport w ids = Inr v \<longrightarrow>
      (\<exists>images sr image0 rest.
         those (map (loadAndCacheImage w) ids) = Some images \<and>
         sortImages (metaData w) ids images = Inr sr \<and>
         sortedImages sr = Some image0 # rest \<and>
         kind (scalarData v) = kind (getPixelData image0))) \<and>
   (\<forall>images sr s0 s1.
      those (map (loadAndCacheImage w) ids) = Some images \<and>
      sortImages (metaData w) ids images = Inr sr \<and>
      sortedImages sr = [Some s0, Some s1] \<and>
      rows s0 = 4 \<and> columns s0 = 4 \<and> rows s1 = 4 \<and> columns s1 = 4 \<and>
      length (elems (getPixelData s0)) = 16 \<and> length (elems (getPixelData s1)) = 16 \<and>
      (kind (getPixelData s0) = Int16Array \<or> kind (getPixelData s0) = Uint16Array) \<longrightarrow>
      (\<exists>v. createVolumeViewport w ids = Inr v \<and>
         kind (scalarData v) = kind (getPixelData s0) \<and>
         bytes_per_element (kind (scalarData v)) = 2 \<and>
         length (elems (scalarData v)) = 32))"
proof (intro conjI allI impI)
  fix v assume v: "createVolumeViewport w ids = Inr v"
  from v obtain images where li: "those (map (loadAndCacheImage w) ids) = Some images"
    unfolding createVolumeViewport_def by (auto split: option.splits)
  from v li obtain sr where so: "sortImages (metaData w) ids images = Inr sr"
    unfolding createVolumeViewport_def by (auto split: sum.splits)
  from sortImages_shape [OF li so] obtain slices where
    sl: "sortedImages sr = map Some slices" by blast
  from v li so sl obtain image0 rest where c: "slices = image0 # rest"
    unfolding createVolumeViewport_def by (cases slices) auto
  from assembled_kind(1) [OF li so sl [unfolded c] v] li so sl c
  show "\<exists>images sr image0 rest.
         those (map (loadAndCacheImage w) ids) = Some images \<and>
         sortImages (metaData w) ids images = Inr sr \<and>
         sortedImages sr = Some image0 # rest \<and>
         kind (scalarData v) = kind (getPixelData image0)"
    by auto
next
  fix images sr s0 s1
  assume h: "those (map (loadAndCacheImage w) ids) = Some images \<and>
      sortImages (metaData w) ids images = Inr sr \<and>
      sortedImages sr = [Some s0, Some s1] \<and>
      rows s0 = 4 \<and> columns s0 = 4 \<and> rows s1 = 4 \<and> columns s1 = 4 \<and>
      length (elems (getPixelData s0)) = 16 \<and> length (elems (getPixelData s1)) = 16 \<and>
      (kind (getPixelData s0) = Int16Array \<or> kind (getPixelData s0) = Uint16Array)"
  then have li: "those (map (loadAndCacheImage w) ids) = Some images"
    and so: "sortImages (metaData w) ids images = Inr sr"
    and sl: "sortedImages sr = map Some (s0 # [s1])" by simp_all
  have short: "\<forall>s\<in>set (s0 # [s1]). length (elems (getPixelData s)) \<le> rows s0 * columns s0"
    using h by simp
  from assembled_succeeds [OF li so sl short] obtain v where
    v: "createVolumeViewport w ids = Inr v" ..
  from assembled_kind [OF li so sl v] h
  have "kind (scalarData v) = kind (getPixelData s0)" "length (elems (scalarData v)) = 32"
    by simp_all
  moreover from this(1) h have "bytes_per_element (kind (scalarData v)) = 2" by auto
  ultimately show "\<exists>v. createVolumeViewport w ids = Inr v \<and>
         kind (scalarData v) = kind (getPixelData s0) \<and>
         bytes_per_element (kind (scalarData v)) = 2 \<and>
         length (elems (scalarData v)) = 32"
    using v by blast
qed

theorem buffer_kind_of_first_slice_witness:
  "those (map (loadAndCacheImage four_by_four_world) [''a'', ''b''])
     = Some [plain_image 4 4 Int16Array (replicate 16 7), plain_image 4 4 Int16Array (replicate 16 9)] \<and>
   map_sum id sortedImages
     (sortImages (metaData four_by_four_world) [''a'', ''b'']
       [plain_image 4 4 Int16Array (replicate 16 7), plain_image 4 4 Int16Array (replicate 16 9)])
     = Inr [Some (plain_image 4 4 Int16Array (replicate 16 7)),
            Some (plain_image 4 4 Int16Array (replicate 16 9))] \<and>
   (\<exists>v. createVolumeViewport four_by_four_world [''a'', ''b''] = Inr v \<and>
      kind (scalarData v) = Int16Array \<and>
      bytes_per_element (kind (scalarData v)) = 2 \<and>
      length (elems (scalarData v)) = 32)"
proof -
  let ?a = "plain_image 4 4 Int16Array (replicate 16 7)"
  let ?b = "plain_image 4 4 Int16Array (replicate 16 9)"
  have li: "those (map (loadAndCacheImage four_by_four_world) [''a'', ''b'']) = Some [?a, ?b]"
    by (simp add: four_by_four_world_def table_world_def)
  have so: "sortImages (metaData four_by_four_world) [''a'', ''b''] [?a, ?b]
              = Inr \<lparr>sortedImages = [Some ?a, Some ?b], zSpacing = 1, volumeOrigin = (0, 0, 0)\<rparr>"
    by (simp add: sortImages_def sortImageIdsAndGetSpacing_def four_by_four_world_def
        table_world_def no_tags_def num_or_def arr_or_def plain_image_def)
  have g: "rows ?a = 4 \<and> columns ?a = 4 \<and> rows ?b = 4 \<and> columns ?b = 4 \<and>
      length (elems (getPixelData ?a)) = 16 \<and> length (elems (getPixelData ?b)) = 16 \<and>
      (kind (getPixelData ?a) = Int16Array \<or> kind (getPixelData ?a) = Uint16Array)"
    by (simp add: plain_image_def)
  from buffer_kind_of_first_slice [of four_by_four_world "[''a'', ''b'']", THEN conjunct2,
      rule_format, of "[?a, ?b]" _ ?a ?b] li so g
  obtain v where "createVolumeViewport four_by_four_world [''a'', ''b''] = Inr v"
    "kind (scalarData v) = kind (getPixelData ?a)"
    "bytes_per_element (kind (scalarData v)) = 2" "length (elems (scalarData v)) = 32"
    by auto
  moreover from this(2) have "kind (scalarData v) = Int16Array" by (simp add: plain_image_def)
  ultimately show ?thesis using li so by auto
qed




text \<open>
  C6, as stated, fails: two slices with 2 rows and 1 row are assembled into a volume, the
  second slice's z-slot padded with a zero.
\<close>

theorem createVolumeViewport_mismatch_counterexample:
  "map (map_option rows \<circ> loadAndCacheImage padded_world) [''a'', ''b''] = [Some 2, Some 1] \<and>
   map_sum id (\<lambda>v. (dimensions v, elems (scalarData v)))
     (createVolumeViewport padded_world [''a'', ''b''])
     = Inr ((1, 2, 2), [Finite 7, Finite 8, Finite 5, Finite 0])"
  by (simp add: assembly_defs padded_world_def numeral_2_eq_2)

text \<open>
  C6, amended. The assembly compares no rows or columns. For a non-empty id sequence whose
  images all load, the buffer is allocated from the first sorted image's rows and columns,
  and the outcome depends on the lengths of the sample arrays alone: a volume when every
  sorted image \<open>i\<close> fits behind its offset \<open>i * rows * columns\<close>, and otherwise the RangeError
  of \<^verbatim>\<open>set\<close>, raised during copying after the buffer was allocated.
\<close>

theorem createVolumeViewport_no_dimension_check:
  assumes "those (map (loadAndCacheImage w) ids) = Some images" and "ids \<noteq> []"
  shows "\<exists>sr slices.
           sortImages (metaData w) ids images = Inr sr \<and>
           sortedImages sr = map Some slices \<and> length slices = length ids \<and>
           (if \<forall>i<length slices.
                 i * (rows (hd slices) * columns (hd slices))
                   + length (elems (getPixelData (slices ! i)))
                 \<le> length slices * (rows (hd slices) * columns (hd slices))
            then \<exists>v. createVolumeViewport w ids = Inr v
            else createVolumeViewport w ids = Inl RangeError)"
proof -
  from loaded_sorted [OF assms] obtain sr image0 rest where
    so: "sortImages (metaData w) ids images = Inr sr"
    and sl: "sortedImages sr = map Some (image0 # rest)"
    and n: "Suc (length rest) = length ids" by blast
  let ?slices = "image0 # rest"
  let ?S = "rows image0 * columns image0"
  let ?fresh = "new_typed_array (kind (getPixelData image0)) (?S * Suc (length rest))"
  let ?fits = "\<forall>i<length ?slices. i * ?S + length (elems (getPixelData (?slices ! i)))
                 \<le> length ?slices * ?S"
  have len: "length (elems ?fresh) = length ?slices * ?S"
    by (simp add: new_typed_array_def)
  have "if ?fits then \<exists>v. createVolumeViewport w ids = Inr v
        else createVolumeViewport w ids = Inl RangeError"
  proof (cases ?fits)
    case True
    then have "\<forall>j<length ?slices. (0 + j) * ?S + length (elems (getPixelData (?slices ! j)))
                 \<le> length (elems ?fresh)"
      unfolding len by simp
    from forEach_set_succeeds [OF this] createVolumeViewport_result(1) [OF assms(1) so sl] True
    show ?thesis by simp
  next
    case False
    have "\<not> (\<exists>filled. forEach_set (map Some ?slices) 0 ?S ?fresh = Inr filled)"
    proof
      assume "\<exists>filled. forEach_set (map Some ?slices) 0 ?S ?fresh = Inr filled"
      then obtain filled where f: "forEach_set (map Some ?slices) 0 ?S ?fresh = Inr filled" ..
      from forEach_set_fits [OF f] have ?fits unfolding len by simp
      with False show False by blast
    qed
    then obtain e where "forEach_set (map Some ?slices) 0 ?S ?fresh = Inl e"
      by (cases "forEach_set (map Some ?slices) 0 ?S ?fresh") auto
    with forEach_set_fails [OF this] createVolumeViewport_result(2) [OF assms(1) so sl, of RangeError] False
    show ?thesis by simp
  qed
  with so sl n show ?thesis by (intro exI [of _ sr] exI [of _ ?slices]) simp
qed

theorem createVolumeViewport_no_dimension_check_witness:
  "those (map (loadAndCacheImage padded_world) [''a'', ''b''])
     = Some [plain_image 2 1 Int16Array [7, 8], plain_image 1 1 Int16Array [5]] \<and>
   [''a'', ''b''] \<noteq> [] \<and>
   (\<exists>sr slices.
      sortImages (metaData padded_world) [''a'', ''b'']
        [plain_image 2 1 Int16Array [7, 8], plain_image 1 1 Int16Array [5]] = Inr sr \<and>
      sortedImages sr = map Some slices \<and> length slices = length [''a'', ''b''] \<and>
      (if \<forall>i<length slices.
            i * (rows (hd slices) * columns (hd slices))
              + length (elems (getPixelData (slices ! i)))
            \<le> length slices * (rows (hd slices) * columns (hd slices))
       then \<exists>v. createVolumeViewport padded_world [''a'', ''b''] = Inr v
       else createVolumeViewport padded_world [''a'', ''b''] = Inl RangeError))"
proof -
  have li: "those (map (loadAndCacheImage padded_world) [''a'', ''b''])
     = Some [plain_image 2 1 Int16Array [7, 8], plain_image 1 1 Int16Array [5]]"
    by (simp add: padded_world_def table_world_def)
  have ne: "[''a'', ''b''] \<noteq> []" by simp
  from createVolumeViewport_no_dimension_check [OF li ne] li ne show ?thesis by blast
qed





text \<open>
  C9, as stated, fails: a slice of 8-bit samples 1, 2 (bytes 01 02) copied into a 16-bit
  buffer occupies the bytes 01 00 02 00 of its z-slot; the source bytes are not copied
  byte for byte.
\<close>

theorem mixed_kind_counterexample:
  "map (map_option (kind \<circ> getPixelData) \<circ> loadAndCacheImage mixed_world) [''a'', ''b'']
     = [Some Int16Array, Some Uint8Array] \<and>
   raw_bytes (getPixelData (plain_image 1 2 Uint8Array [1, 2])) = Some [1, 2] \<and>
   map_sum id (raw_bytes \<circ> scalarData) (createVolumeViewport mixed_world [''a'', ''b''])
     = Inr (Some [2, 1, 3, 0, 1, 0, 2, 0]) \<and>
   map_sum id (map_option (take 2 \<circ> drop 4) \<circ> raw_bytes \<circ> scalarData)
       (createVolumeViewport mixed_world [''a'', ''b''])
     \<noteq> Inr (raw_bytes (getPixelData (plain_image 1 2 Uint8Array [1, 2])))"
  by (simp add: assembly_defs mixed_world_def raw_bytes_def sample_bytes_def int_bytes_def
      js_truncate_def to_int_n_def numeral_2_eq_2 upt_rec)

text \<open>
  C9, amended. The buffer keeps the kind of the first sorted slice, whatever the kinds of
  the later slices, and in a returned volume every sample of a slice that lies inside the
  slice's z-slot is the source sample converted, element by element, to the buffer's kind
  by \<^verbatim>\<open>set\<close>: unchanged for equal kinds and into a \<^verbatim>\<open>Float32Array\<close>, truncated and wrapped
  into the integer range otherwise.
\<close>

theorem samples_converted_elementwise:
  assumes "createVolumeViewport w ids = Inr v"
    and "those (map (loadAndCacheImage w) ids) = Some images"
    and "sortImages (metaData w) ids images = Inr sr"
    and "sortedImages sr = map Some slices"
  shows "kind (scalarData v) = kind (getPixelData (hd slices)) \<and>
         (\<forall>z<length slices. \<forall>q<length (elems (getPixelData (slices ! z))).
            q < rows (hd slices) * columns (hd slices) \<longrightarrow>
            elems (scalarData v) ! (z * (rows (hd slices) * columns (hd slices)) + q) =
              convert_sample (kind (scalarData v)) (kind (getPixelData (slices ! z)))
                (elems (getPixelData (slices ! z)) ! q))"
proof -
  from assms obtain image0 rest where c: "slices = image0 # rest"
    unfolding createVolumeViewport_def by (cases slices) auto
  note sl = assms(4) [unfolded c]
  have k: "kind (scalarData v) = kind (getPixelData image0)"
    by (rule assembled_kind(1) [OF assms(2,3) sl assms(1)])
  show ?thesis
    unfolding c list.sel k
    using assembled_sample [OF assms(2,3) sl assms(1)] by simp
qed

theorem samples_converted_elementwise_witness:
  "map_sum id (elems \<circ> scalarData) (createVolumeViewport mixed_world [''a'', ''b''])
     = Inr [Finite 258, Finite 3, Finite 1, Finite 2] \<and>
   (\<exists>v. createVolumeViewport mixed_world [''a'', ''b''] = Inr v \<and>
      kind (scalarData v) = Int16Array \<and>
      elems (scalarData v) ! (1 * (1 * 2) + 1) = convert_sample Int16Array Uint8Array (Finite 2))"
proof -
  let ?a = "plain_image 1 2 Int16Array [258, 3]" and ?b = "plain_image 1 2 Uint8Array [1, 2]"
  have ok: "createVolumeViewport mixed_world [''a'', ''b'']
              = Inr (projr (createVolumeViewport mixed_world [''a'', ''b'']))"
    by (rule sum_Inr_projr) (simp add: assembly_defs mixed_world_def)
  have li: "those (map (loadAndCacheImage mixed_world) [''a'', ''b'']) = Some [?a, ?b]"
    by (simp add: mixed_world_def table_world_def)
  have so: "sortImages (metaData mixed_world) [''a'', ''b''] [?a, ?b]
              = Inr \<lparr>sortedImages = map Some [?a, ?b], zSpacing = 1, volumeOrigin = (0, 0, 0)\<rparr>"
    by (simp add: assembly_defs mixed_world_def)
  have ev: "map_sum id (elems \<circ> scalarData) (createVolumeViewport mixed_world [''a'', ''b''])
     = Inr [Finite 258, Finite 3, Finite 1, Finite 2]"
    by (simp add: assembly_defs mixed_world_def to_int_n_def js_truncate_def numeral_2_eq_2)
  from samples_converted_elementwise [OF ok li so, of "[?a, ?b]"]
  have k: "kind (scalarData (projr (createVolumeViewport mixed_world [''a'', ''b''])))
             = kind (getPixelData (hd [?a, ?b]))"
    and e: "\<forall>z<length [?a, ?b]. \<forall>q<length (elems (getPixelData ([?a, ?b] ! z))).
            q < rows (hd [?a, ?b]) * columns (hd [?a, ?b]) \<longrightarrow>
            elems (scalarData (projr (createVolumeViewport mixed_world [''a'', ''b'']))) !
              (z * (rows (hd [?a, ?b]) * columns (hd [?a, ?b])) + q) =
              convert_sample (kind (scalarData (projr (createVolumeViewport mixed_world [''a'', ''b'']))))
                (kind (getPixelData ([?a, ?b] ! z))) (elems (getPixelData ([?a, ?b] ! z)) ! q)"
    by simp_all
  from k have k': "kind (scalarData (projr (createVolumeViewport mixed_world [''a'', ''b''])))
                     = Int16Array"
    by (simp add: plain_image_def)
  from e [rule_format, of 1 1] k'
  have "elems (scalarData (projr (createVolumeViewport mixed_world [''a'', ''b''])))
          ! (1 * (1 * 2) + 1) = convert_sample Int16Array Uint8Array (Finite 2)"
    by (simp add: plain_image_def)
  with ok ev k' show ?thesis by metis
qed

text \<open>
  C10, as stated, fails: with an earlier sample array longer than the first slice's grid,
  the tail of a later, shorter slice's z-slot holds the earlier slice's samples, not 0.
\<close>

theorem short_slice_counterexample:
  "map (map_option (\<lambda>s. (kind (getPixelData s), length (elems (getPixelData s))))
         \<circ> loadAndCacheImage overflow_world) [''a'', ''b'', ''c'']
     = [Some (Int16Array, 2), Some (Int16Array, 4), Some (Int16Array, 1)] \<and>
   map_sum id (\<lambda>v. (dimensions v, elems (scalarData v)))
     (createVolumeViewport overflow_world [''a'', ''b'', ''c''])
     = Inr ((2, 1, 3), [Finite 5, Finite 6, Finite 7, Finite 8, Finite 4, Finite 10]) \<and>
   map_sum id (\<lambda>v. voxel v 1 0 2) (createVolumeViewport overflow_world [''a'', ''b'', ''c''])
     \<noteq> Inr (Finite 0)"
  by (simp add: assembly_defs overflow_world_def voxel_def numeral_2_eq_2 numeral_3_eq_3)

text \<open>
  C10, amended. For a non-empty slice list of one kind in which no sample array is longer
  than the first sorted slice's \<open>rows * columns\<close>, the assembly returns a volume; each slice's
  samples stand at the start of its z-slot and the rest of the z-slot is 0.
\<close>

theorem short_slice_zero_padded:
  assumes "those (map (loadAndCacheImage w) ids) = Some images"
    and "sortImages (metaData w) ids images = Inr sr"
    and "sortedImages sr = map Some slices"
    and "ids \<noteq> []"
    and "\<forall>s\<in>set slices. kind (getPixelData s) = kind (getPixelData (hd slices))"
    and "\<forall>s\<in>set slices.
           length (elems (getPixelData s)) \<le> rows (hd slices) * columns (hd slices)"
  shows "\<exists>v. createVolumeViewport w ids = Inr v \<and>
           (\<forall>z<length slices. \<forall>q<rows (hd slices) * columns (hd slices).
              elems (scalarData v) ! (z * (rows (hd slices) * columns (hd slices)) + q) =
                (if q < length (elems (getPixelData (slices ! z)))
                 then elems (getPixelData (slices ! z)) ! q else Finite 0))"
proof -
  from sortImages_shape [OF assms(1,2)] assms(3) have "length slices = length ids"
    by (metis length_map)
  with assms(4) obtain image0 rest where c: "slices = image0 # rest" by (cases slices) auto
  note sl = assms(3) [unfolded c]
  note short = assms(6) [unfolded c list.sel]
  from assembled_succeeds [OF assms(1,2) sl short] obtain v where
    v: "createVolumeViewport w ids = Inr v" ..
  have "elems (scalarData v) ! (z * (rows image0 * columns image0) + q) =
          (if q < length (elems (getPixelData ((image0 # rest) ! z)))
           then elems (getPixelData ((image0 # rest) ! z)) ! q else Finite 0)"
    if z: "z < length (image0 # rest)" and q: "q < rows image0 * columns image0" for z q
  proof (cases "q < length (elems (getPixelData ((image0 # rest) ! z)))")
    case True
    have "kind (getPixelData ((image0 # rest) ! z)) = kind (getPixelData image0)"
      using assms(5) nth_mem [OF z] unfolding c by auto
    with assembled_sample [OF assms(1,2) sl v _ True q] z True show ?thesis by simp
  next
    case False
    with assembled_zero [OF assms(1,2) sl v short _ _ q, of z] z show ?thesis by simp
  qed
  with v show ?thesis unfolding c list.sel by blast
qed

theorem short_slice_zero_padded_witness:
  "those (map (loadAndCacheImage short_world) [''a'', ''b''])
     = Some [plain_image 1 2 Int16Array [5, 6], plain_image 1 1 Int16Array [4]] \<and>
   map_sum id (elems \<circ> scalarData) (createVolumeViewport short_world [''a'', ''b''])
     = Inr [Finite 5, Finite 6, Finite 4, Finite 0] \<and>
   (\<exists>v. createVolumeViewport short_world [''a'', ''b''] = Inr v \<and>
      elems (scalarData v) ! (1 * (1 * 2) + 1) = Finite 0)"
proof -
  let ?a = "plain_image 1 2 Int16Array [5, 6]" and ?b = "plain_image 1 1 Int16Array [4]"
  have li: "those (map (loadAndCacheImage short_world) [''a'', ''b'']) = Some [?a, ?b]"
    by (simp add: short_world_def table_world_def)
  have so: "sortImages (metaData short_world) [''a'', ''b''] [?a, ?b]
              = Inr \<lparr>sortedImages = map Some [?a, ?b], zSpacing = 1, volumeOrigin = (0, 0, 0)\<rparr>"
    by (simp add: assembly_defs short_world_def)
  have ev: "map_sum id (elems \<circ> scalarData) (createVolumeViewport short_world [''a'', ''b''])
     = Inr [Finite 5, Finite 6, Finite 4, Finite 0]"
    by (simp add: assembly_defs short_world_def numeral_2_eq_2)
  from short_slice_zero_padded [OF li so, of "[?a, ?b]"]
  obtain v where v: "createVolumeViewport short_world [''a'', ''b''] = Inr v"
    and z: "\<forall>z<length [?a, ?b]. \<forall>q<rows (hd [?a, ?b]) * columns (hd [?a, ?b]).
              elems (scalarData v) ! (z * (rows (hd [?a, ?b]) * columns (hd [?a, ?b])) + q) =
                (if q < length (elems (getPixelData ([?a, ?b] ! z)))
                 then elems (getPixelData ([?a, ?b] ! z)) ! q else Finite 0)"
    by (auto simp: plain_image_def)
  from z [rule_format, of 1 1] have "elems (scalarData v) ! (1 * (1 * 2) + 1) = Finite 0"
    by (simp add: plain_image_def)
  with li ev v show ?thesis by blast
qed

end
